theory Spec2Isabelle
  imports Complex_Main "HOL-Library.Word"
begin

section \<open>Typed arrays and numbers\<close>

text \<open>
  A \<^verbatim>\<open>Uint8Array\<close> is a list of bytes. Reading a typed array at an index outside
  it gives \<^verbatim>\<open>undefined\<close> (here \<open>None\<close>); writing outside it is ignored, which
  is what \<open>xs[i := v]\<close> does. Dimensions and loop counters are the non-negative
  integers of tensor shapes (\<open>nat\<close>); neighbour coordinates can be negative (\<open>int\<close>).
\<close>

type_synonym u8 = "8 word"

definition read :: "'a list \<Rightarrow> nat \<Rightarrow> 'a option" where
  "read xs i = (if i < length xs then Some (xs ! i) else None)"

text \<open>
  The values of a \<^verbatim>\<open>Float32Array\<close>: a finite float is identified with the real
  number it denotes (so the two zeros coincide, as they do under \<^verbatim>\<open>></\<close> and
  \<^verbatim>\<open>===\<close>). \<open>gt a b\<close> is the comparison \<^verbatim>\<open>a > b\<close>, \<open>feq a b\<close> is
  \<^verbatim>\<open>a === b\<close>; both are false as soon as one side is \<open>NaN\<close>.
\<close>

datatype f32 = NaN | NegInf | Finite real | PosInf

fun gt :: "f32 \<Rightarrow> f32 \<Rightarrow> bool" where
  "gt (Finite a) (Finite b) = (b < a)"
| "gt (Finite a) NegInf = True"
| "gt PosInf (Finite b) = True"
| "gt PosInf NegInf = True"
| "gt _ _ = False"

fun feq :: "f32 \<Rightarrow> f32 \<Rightarrow> bool" where
  "feq (Finite a) (Finite b) = (a = b)"
| "feq NegInf NegInf = True"
| "feq PosInf PosInf = True"
| "feq _ _ = False"

section \<open>Classifier adapter: \<^verbatim>\<open>preprocessImage\<close>\<close>

text \<open>
  \<^verbatim>\<open>data[j] / 255\<close> as it is stored in the \<^verbatim>\<open>Float32Array\<close>: the quotient,
  rounded by \<open>rnd\<close> to the stored float. The rounding function is a parameter; a byte
  read outside \<^verbatim>\<open>data\<close> is \<^verbatim>\<open>undefined\<close> and its quotient is \<open>NaN\<close>.
\<close>

definition byte_to_unit :: "(real \<Rightarrow> real) \<Rightarrow> u8 option \<Rightarrow> f32" where
  "byte_to_unit rnd b = (case b of Some v \<Rightarrow> Finite (rnd (real (unat v) / 255)) | None \<Rightarrow> NaN)"

text \<open>
  The loop of \<^verbatim>\<open>preprocessImage\<close> over the RGBA bytes \<open>data\<close> that
  \<^verbatim>\<open>getImageData\<close> returned, with the local constants \<^verbatim>\<open>width\<close> and
  \<^verbatim>\<open>height\<close> as arguments; \<open>preprocessImage\<close> fixes them at 512.
\<close>

definition preprocess :: "nat \<Rightarrow> nat \<Rightarrow> (real \<Rightarrow> real) \<Rightarrow> u8 list \<Rightarrow> f32 list" where
  "preprocess width height rnd data =
     fold (\<lambda>i floatData.
             ((floatData[i := byte_to_unit rnd (read data (i * 4))])
                [i + width * height := byte_to_unit rnd (read data (i * 4 + 1))])
                [i + 2 * width * height := byte_to_unit rnd (read data (i * 4 + 2))])
       [0..<width * height] (replicate (3 * width * height) (Finite 0))"

definition preprocessImage :: "(real \<Rightarrow> real) \<Rightarrow> u8 list \<Rightarrow> f32 list" where
  "preprocessImage rnd data = preprocess 512 512 rnd data"

section \<open>Class decoder: the arg-max loop of \<^verbatim>\<open>run\<close>\<close>

text \<open>\<^verbatim>\<open>outputData[c * outWidth * outHeight + i]\<close>; \<^verbatim>\<open>undefined\<close> compares as \<open>NaN\<close>.\<close>

definition score_at :: "f32 list \<Rightarrow> nat \<Rightarrow> nat \<Rightarrow> nat \<Rightarrow> nat \<Rightarrow> f32" where
  "score_at outputData outWidth outHeight i c =
     (case read outputData (c * outWidth * outHeight + i) of Some s \<Rightarrow> s | None \<Rightarrow> NaN)"

text \<open>The body of the loop over \<open>c\<close>, on the pair \<open>(maxScore, maxClass)\<close>.\<close>

definition scan_class :: "f32 list \<Rightarrow> nat \<Rightarrow> nat \<Rightarrow> nat \<Rightarrow> nat \<Rightarrow> f32 \<times> nat \<Rightarrow> f32 \<times> nat" where
  "scan_class outputData outWidth outHeight i c st =
     (case st of (maxScore, maxClass) \<Rightarrow>
        (let score = score_at outputData outWidth outHeight i c
         in if gt score maxScore then (score, c) else (maxScore, maxClass)))"

text \<open>\<^verbatim>\<open>maxClass\<close> when the loop over \<open>c\<close> ends, for the position \<open>i\<close>.\<close>

definition maxClass_at :: "f32 list \<Rightarrow> nat \<Rightarrow> nat \<Rightarrow> nat \<Rightarrow> nat \<Rightarrow> nat" where
  "maxClass_at outputData numClasses outHeight outWidth i =
     snd (fold (scan_class outputData outWidth outHeight i) [0..<numClasses] (NegInf, 0))"

text \<open>
  The array \<^verbatim>\<open>classIds\<close>: storing a number in a \<^verbatim>\<open>Uint8Array\<close> keeps it
  modulo 256 (\<open>of_nat\<close>).
\<close>

definition decode :: "f32 list \<Rightarrow> nat \<Rightarrow> nat \<Rightarrow> nat \<Rightarrow> u8 list" where
  "decode outputData numClasses outHeight outWidth =
     fold (\<lambda>i classIds. classIds[i := of_nat (maxClass_at outputData numClasses outHeight outWidth i)])
       [0..<outWidth * outHeight] (replicate (outWidth * outHeight) 0)"

section \<open>Mask builder: the mask loops of \<^verbatim>\<open>drawSegmentationOverlay\<close>\<close>

text \<open>
  The wall loop and the floor loop are the same loop with the class ids 0 and 3;
  \<open>buildMask\<close> is that loop with the class id as an argument.
\<close>

definition buildMask :: "u8 list \<Rightarrow> u8 \<Rightarrow> u8 list" where
  "buildMask outputClasses classId =
     fold (\<lambda>i m. if read outputClasses i = Some classId then m[i := 1] else m)
       [0..<length outputClasses] (replicate (length outputClasses) 0)"

definition wallMask :: "u8 list \<Rightarrow> u8 list" where
  "wallMask outputClasses = buildMask outputClasses 0"

definition floorMask :: "u8 list \<Rightarrow> u8 list" where
  "floorMask outputClasses = buildMask outputClasses 3"

section \<open>Mask repair: \<^verbatim>\<open>dilate\<close>\<close>

definition radius :: int where
  "radius = 1"

text \<open>The body of the two innermost loops: one neighbour of \<open>(x, y)\<close>.\<close>

definition set_neighbour :: "nat \<Rightarrow> nat \<Rightarrow> nat \<Rightarrow> nat \<Rightarrow> int \<Rightarrow> int \<Rightarrow> u8 list \<Rightarrow> u8 list" where
  "set_neighbour width height x y dy dx result =
     (let nx = int x + dx; ny = int y + dy
      in if nx \<ge> 0 \<and> nx < int width \<and> ny \<ge> 0 \<and> ny < int height
         then result[nat (ny * int width + nx) := 1]
         else result)"

text \<open>
  The body of the loop over \<open>x\<close>. \<^verbatim>\<open>mask[idx] === 0\<close> is false for \<^verbatim>\<open>undefined\<close>,
  so only a stored zero skips the pixel. The parameter \<^verbatim>\<open>mask\<close> is written \<open>msk\<close>.
\<close>

definition dilate_pixel :: "u8 list \<Rightarrow> nat \<Rightarrow> nat \<Rightarrow> nat \<Rightarrow> nat \<Rightarrow> u8 list \<Rightarrow> u8 list" where
  "dilate_pixel msk width height y x result =
     (let idx = y * width + x
      in if read msk idx = Some 0 then result
         else fold (\<lambda>dy. fold (\<lambda>dx. set_neighbour width height x y dy dx) [- radius..radius])
                [- radius..radius] result)"

definition dilate :: "u8 list \<Rightarrow> nat \<Rightarrow> nat \<Rightarrow> u8 list" where
  "dilate msk width height =
     fold (\<lambda>y. fold (\<lambda>x. dilate_pixel msk width height y x) [0..<width]) [0..<height]
       (replicate (length msk) 0)"

section \<open>Texture loading and compositing\<close>

text \<open>
  \<open>assets\<close> says which image sources decode: \<^verbatim>\<open>loadTexture\<close> resolves with the
  image on \<^verbatim>\<open>onload\<close> and rejects on \<^verbatim>\<open>onerror\<close>. A rejected promise that is
  awaited throws; it is the error value \<open>Inl\<close>.
\<close>

datatype error = TextureLoadError string

definition loadTexture :: "(string \<rightharpoonup> 'img) \<Rightarrow> string \<Rightarrow> error + 'img" where
  "loadTexture assets src =
     (case assets src of Some img \<Rightarrow> Inr img | None \<Rightarrow> Inl (TextureLoadError src))"

text \<open>
  The visible canvas \<^verbatim>\<open>ctx\<close> is the list of what has been drawn on it, oldest first:
  the input image, the wall layer (its texture, filled where the repaired wall mask is
  set) and the floor layer (its texture, kept where the repaired floor mask is set).
  Scaling, tiling, shear and alpha of the layers are not modelled.
\<close>

datatype 'img layer =
    BaseImage 'img
  | WallOverlay 'img "u8 list"
  | FloorOverlay 'img "u8 list"

text \<open>
  \<^verbatim>\<open>drawSegmentationOverlay\<close> awaits both textures before it builds a mask or draws;
  there is no \<^verbatim>\<open>try\<close> around either \<^verbatim>\<open>await\<close>. The result is the outcome of the
  promise and the canvas afterwards.
\<close>

definition drawSegmentationOverlay ::
  "(string \<rightharpoonup> 'img) \<Rightarrow> u8 list \<Rightarrow> nat \<Rightarrow> nat \<Rightarrow> 'img layer list \<Rightarrow> (error + unit) \<times> 'img layer list" where
  "drawSegmentationOverlay assets outputClasses maskWidth maskHeight ctx =
     (case loadTexture assets ''/Textures/Floor.webp'' of
        Inl e \<Rightarrow> (Inl e, ctx)
      | Inr wallTexture \<Rightarrow>
          (case loadTexture assets ''/Textures/Floor1.jpg'' of
             Inl e \<Rightarrow> (Inl e, ctx)
           | Inr floorTexture \<Rightarrow>
               (let cleanWallMask = dilate (wallMask outputClasses) maskWidth maskHeight;
                    cleanFloorMask = dilate (floorMask outputClasses) maskWidth maskHeight
                in (Inr (), ctx @ [WallOverlay wallTexture cleanWallMask,
                                   FloorOverlay floorTexture cleanFloorMask]))))"

text \<open>
  \<^verbatim>\<open>run\<close> from the point where the inference engine has returned its output tensor
  (\<open>outputData\<close> with the dimensions \<open>numClasses\<close>, \<open>outHeight\<close>, \<open>outWidth\<close>): the
  canvas holds the input image, the class ids are decoded, and the overlay is awaited
  with no handler, so its rejection is the rejection of \<^verbatim>\<open>run\<close>. The parameter
  \<^verbatim>\<open>image\<close> is written \<open>img\<close>.
\<close>

definition run ::
  "(string \<rightharpoonup> 'img) \<Rightarrow> 'img \<Rightarrow> f32 list \<Rightarrow> nat \<Rightarrow> nat \<Rightarrow> nat \<Rightarrow> (error + unit) \<times> 'img layer list" where
  "run assets img outputData numClasses outHeight outWidth =
     (let ctx = [BaseImage img];
          classIds = decode outputData numClasses outHeight outWidth
      in drawSegmentationOverlay assets classIds outWidth outHeight ctx)"

section \<open>Auxiliary notions for the proofs\<close>

text \<open>\<open>marked S r r'\<close>: the array \<open>r'\<close> is \<open>r\<close> with the cells of \<open>S\<close> set to 1.\<close>

definition marked :: "nat set \<Rightarrow> u8 list \<Rightarrow> u8 list \<Rightarrow> bool" where
  "marked S r r' \<longleftrightarrow>
     length r' = length r \<and> (\<forall>k<length r. r' ! k = (if k \<in> S then 1 else r ! k))"

text \<open>The cell that \<open>set_neighbour\<close> writes, and the cells that one pixel writes.\<close>

definition neighbour :: "nat \<Rightarrow> nat \<Rightarrow> nat \<Rightarrow> nat \<Rightarrow> int \<Rightarrow> int \<Rightarrow> nat set" where
  "neighbour width height x y dy dx =
     (if int x + dx \<ge> 0 \<and> int x + dx < int width \<and> int y + dy \<ge> 0 \<and> int y + dy < int height
      then {nat ((int y + dy) * int width + (int x + dx))} else {})"

definition reach :: "u8 list \<Rightarrow> nat \<Rightarrow> nat \<Rightarrow> nat \<Rightarrow> nat \<Rightarrow> nat set" where
  "reach msk width height y x =
     (if read msk (y * width + x) = Some 0 then {}
      else (\<Union>dy\<in>{-1..1}. \<Union>dx\<in>{-1..1}. neighbour width height x y dy dx))"

text \<open>The invariant of the arg-max scan after the classes below \<open>n\<close>.\<close>

definition scanned :: "(nat \<Rightarrow> f32) \<Rightarrow> nat \<Rightarrow> f32 \<times> nat \<Rightarrow> bool" where
  "scanned s n st \<longleftrightarrow>
     (case st of (m, k) \<Rightarrow>
        m \<noteq> NaN \<and> (\<forall>c<n. \<not> gt (s c) m) \<and>
        (m = NegInf \<and> k = 0 \<or> k < n \<and> m = s k \<and> (\<forall>c<k. s c = NaN \<or> gt m (s c))))"

section \<open>Arrays written cell by cell\<close>

lemma marked_same: "marked {} r r"
  by (simp add: marked_def)

lemma marked_update: "marked {i} r (r[i := 1])"
  by (simp add: marked_def nth_list_update)

lemma marked_trans: "marked S r r' \<Longrightarrow> marked T r' r'' \<Longrightarrow> marked (S \<union> T) r r''"
  by (auto simp: marked_def)

lemma marked_fold:
  "(\<And>a r. a \<in> set as \<Longrightarrow> marked (T a) r (f a r)) \<Longrightarrow>
   marked (\<Union>a\<in>set as. T a) r (fold f as r)"
proof (induction as arbitrary: r)
  case Nil
  then show ?case by (simp add: marked_same)
next
  case (Cons a as)
  have "marked (T a) r (f a r)" using Cons.prems by simp
  moreover have "marked (\<Union>b\<in>set as. T b) (f a r) (fold f as (f a r))"
    using Cons.IH Cons.prems by simp
  ultimately have "marked (T a \<union> (\<Union>b\<in>set as. T b)) r (fold f as (f a r))"
    by (rule marked_trans)
  then show ?case by simp
qed

lemma index_less: "x < width \<Longrightarrow> y < height \<Longrightarrow> y * width + x < width * (height::nat)"
proof -
  assume a: "x < width" "y < height"
  then have "y * width + x < y * width + width" by simp
  also have "\<dots> = Suc y * width" by simp
  also have "\<dots> \<le> height * width" using a(2) by (intro mult_le_mono1) simp
  finally show ?thesis by (simp add: mult.commute)
qed

lemma index_unique:
  assumes "x < width" "x' < width" "y * width + x = y' * width + (x'::nat)"
  shows "x = x' \<and> y = y'"
proof -
  have "(y * width + x) div width = y" "(y' * width + x') div width = y'"
       "(y * width + x) mod width = x" "(y' * width + x') mod width = x'"
    using assms(1,2) by simp_all
  with assms(3) show ?thesis by metis
qed

lemma word_le_1_iff: "(v::u8) \<le> 1 \<longleftrightarrow> v = 0 \<or> v = 1"
  by (metis word_le_less_eq word_less_1 word_zero_le)

section \<open>The mask builder\<close>

lemma marked_buildMask:
  "marked {i. i < length G \<and> G ! i = c} (replicate (length G) 0) (buildMask G c)"
proof -
  have "marked (\<Union>i\<in>set [0..<length G]. (if read G i = Some c then {i} else {}))
     (replicate (length G) 0) (buildMask G c)"
    unfolding buildMask_def by (intro marked_fold) (simp add: marked_update marked_same)
  moreover have "(\<Union>i\<in>set [0..<length G]. (if read G i = Some c then {i} else {})) =
      {i. i < length G \<and> G ! i = c}"
    by (auto simp: read_def split: if_splits)
  ultimately show ?thesis by simp
qed

lemma buildMask_nth: "i < length G \<Longrightarrow> buildMask G c ! i = (if G ! i = c then 1 else 0)"
  using marked_buildMask [of G c] by (simp add: marked_def)

lemma length_buildMask: "length (buildMask G c) = length G"
  using marked_buildMask [of G c] by (simp add: marked_def)

text \<open>
  Claim C3. For every class-id grid \<open>G\<close>, every class id \<open>c\<close> and every pixel \<open>i\<close> of
  the grid, the mask built for \<open>c\<close> holds 1 at \<open>i\<close> exactly when \<open>G ! i = c\<close> and 0
  otherwise, and it has the grid's length. The wall mask (class 0) and the floor mask
  (class 3) of one grid are never both set at a pixel.
\<close>

theorem buildMask_equality_test:
  assumes "i < length G"
  shows "(buildMask G c ! i = 1 \<longleftrightarrow> G ! i = c) \<and>
         (buildMask G c ! i = 0 \<longleftrightarrow> G ! i \<noteq> c) \<and>
         length (buildMask G c) = length G \<and>
         \<not> (wallMask G ! i \<noteq> 0 \<and> floorMask G ! i \<noteq> 0)"
  using assms by (simp add: buildMask_nth length_buildMask wallMask_def floorMask_def)

theorem buildMask_equality_test_witness:
  "buildMask [0, 2, 3, 0] 3 ! 2 = 1 \<and> buildMask [0, 2, 3, 0] 3 ! 1 = 0 \<and>
   length (buildMask [0, 2, 3, 0] 3) = 4"
  using buildMask_equality_test [of 2 "[0, 2, 3, 0]" 3] buildMask_equality_test [of 1 "[0, 2, 3, 0]" 3]
  by simp

section \<open>Dilation\<close>

lemma marked_set_neighbour:
  "marked (neighbour width height x y dy dx) r (set_neighbour width height x y dy dx r)"
  by (simp add: set_neighbour_def neighbour_def Let_def marked_update marked_same)

lemma marked_dilate_pixel:
  "marked (reach msk width height y x) r (dilate_pixel msk width height y x r)"
proof (cases "read msk (y * width + x) = Some 0")
  case True
  then show ?thesis by (simp add: dilate_pixel_def reach_def marked_same)
next
  case False
  have "marked (\<Union>dy\<in>set [- radius..radius]. \<Union>dx\<in>set [- radius..radius]. neighbour width height x y dy dx) r
     (fold (\<lambda>dy. fold (\<lambda>dx. set_neighbour width height x y dy dx) [- radius..radius]) [- radius..radius] r)"
    by (intro marked_fold marked_set_neighbour)
  with False show ?thesis by (simp add: dilate_pixel_def reach_def radius_def)
qed

lemma marked_dilate:
  "marked (\<Union>y\<in>{..<height}. \<Union>x\<in>{..<width}. reach msk width height y x)
     (replicate (length msk) 0) (dilate msk width height)"
proof -
  have "marked (\<Union>y\<in>set [0..<height]. \<Union>x\<in>set [0..<width]. reach msk width height y x)
     (replicate (length msk) 0)
     (fold (\<lambda>y. fold (\<lambda>x. dilate_pixel msk width height y x) [0..<width]) [0..<height]
       (replicate (length msk) 0))"
    by (intro marked_fold marked_dilate_pixel)
  then show ?thesis by (simp add: dilate_def lessThan_atLeast0)
qed

lemma length_dilate: "length (dilate msk width height) = length msk"
  using marked_dilate [where msk = msk and width = width and height = height]
  by (simp add: marked_def)

lemma dilate_nth:
  "k < length msk \<Longrightarrow>
   dilate msk width height ! k =
     (if k \<in> (\<Union>y\<in>{..<height}. \<Union>x\<in>{..<width}. reach msk width height y x) then 1 else 0)"
  using marked_dilate [where msk = msk and width = width and height = height]
  by (simp add: marked_def)

lemma dilate_values:
  assumes "v \<in> set (dilate msk width height)"
  shows "v = 0 \<or> v = 1"
proof -
  obtain k where "k < length msk" and "v = dilate msk width height ! k"
    using assms by (auto simp: in_set_conv_nth length_dilate)
  then show ?thesis by (simp add: dilate_nth)
qed

text \<open>On a mask of the stated dimensions, the written cells are the square neighbourhoods.\<close>

lemma reach_iff:
  assumes len: "length msk = width * height" and x: "x < width" and y: "y < height"
  shows "y * width + x \<in> (\<Union>y'\<in>{..<height}. \<Union>x'\<in>{..<width}. reach msk width height y' x') \<longleftrightarrow>
         (\<exists>y'<height. \<exists>x'<width. msk ! (y' * width + x') \<noteq> 0 \<and>
            \<bar>int x - int x'\<bar> \<le> 1 \<and> \<bar>int y - int y'\<bar> \<le> 1)"
    (is "?L \<longleftrightarrow> ?R")
proof
  assume ?L
  then obtain y' x' where y': "y' < height" and x': "x' < width"
    and r: "y * width + x \<in> reach msk width height y' x'" by auto
  have lt: "y' * width + x' < length msk" using index_less [OF x' y'] len by simp
  from r have nz: "msk ! (y' * width + x') \<noteq> 0"
    using lt by (auto simp: reach_def read_def split: if_splits)
  from r obtain dy dx where d: "- 1 \<le> dy" "dy \<le> 1" "- 1 \<le> dx" "dx \<le> 1"
    and n: "y * width + x \<in> neighbour width height x' y' dy dx"
    by (auto simp: reach_def split: if_splits)
  from n have b: "0 \<le> int x' + dx" "int x' + dx < int width" "0 \<le> int y' + dy" "int y' + dy < int height"
    and e: "y * width + x = nat ((int y' + dy) * int width + (int x' + dx))"
    by (auto simp: neighbour_def split: if_splits)
  define nx ny where "nx = nat (int x' + dx)" and "ny = nat (int y' + dy)"
  have nxy: "int nx = int x' + dx" "int ny = int y' + dy" using b by (simp_all add: nx_def ny_def)
  have "nat ((int y' + dy) * int width + (int x' + dx)) = ny * width + nx"
    unfolding nxy [symmetric] by (simp add: nat_add_distrib nat_mult_distrib)
  with e have "y * width + x = ny * width + nx" by simp
  moreover have "nx < width" using b nxy by linarith
  ultimately have "x = nx \<and> y = ny" using index_unique x by blast
  then have "\<bar>int x - int x'\<bar> \<le> 1" "\<bar>int y - int y'\<bar> \<le> 1" using nxy d by simp_all
  with y' x' nz show ?R by blast
next
  assume ?R
  then obtain y' x' where y': "y' < height" and x': "x' < width"
    and nz: "msk ! (y' * width + x') \<noteq> 0"
    and c: "\<bar>int x - int x'\<bar> \<le> 1" "\<bar>int y - int y'\<bar> \<le> 1" by blast
  define dx dy where "dx = int x - int x'" and "dy = int y - int y'"
  have d: "dx \<in> {-1..1}" "dy \<in> {-1..1}" using c by (auto simp: dx_def dy_def)
  have "neighbour width height x' y' dy dx = {nat (int y * int width + int x)}"
    using x y by (simp add: neighbour_def dx_def dy_def)
  also have "nat (int y * int width + int x) = y * width + x"
    by (simp add: nat_add_distrib nat_mult_distrib)
  finally have "y * width + x \<in> neighbour width height x' y' dy dx" by simp
  with d have "y * width + x \<in> (\<Union>dy\<in>{-1..1}. \<Union>dx\<in>{-1..1}. neighbour width height x' y' dy dx)"
    by blast
  moreover have "read msk (y' * width + x') \<noteq> Some 0" using nz by (simp add: read_def)
  ultimately have "y * width + x \<in> reach msk width height y' x'" by (simp add: reach_def)
  with y' x' show ?L by blast
qed

lemma dilate_iff:
  assumes len: "length msk = width * height" and x: "x < width" and y: "y < height"
  shows "dilate msk width height ! (y * width + x) =
      (if \<exists>y'<height. \<exists>x'<width. msk ! (y' * width + x') \<noteq> 0 \<and>
            \<bar>int x - int x'\<bar> \<le> 1 \<and> \<bar>int y - int y'\<bar> \<le> 1 then 1 else 0)"
proof -
  have lt: "y * width + x < length msk" using index_less [OF x y] len by simp
  show ?thesis unfolding dilate_nth [OF lt] reach_iff [OF len x y] ..
qed

lemma reach_mono:
  assumes "length N = length M" and "\<forall>i<length M. M ! i \<noteq> 0 \<longrightarrow> N ! i \<noteq> 0"
  shows "reach M width height y x \<subseteq> reach N width height y x"
  using assms by (auto simp: reach_def read_def split: if_splits)

lemma reach_nonzero:
  "reach (map (\<lambda>v. if v = 0 then 0 else 1) msk) width height y x = reach msk width height y x"
  by (simp add: reach_def read_def)

text \<open>
  Claim C1. For a mask \<open>msk\<close> of \<open>width * height\<close> bytes and a pixel \<open>(x, y)\<close> inside
  it, the output of \<open>dilate\<close> at \<open>y * width + x\<close> is 1 if some pixel \<open>(x', y')\<close> inside
  the raster with \<open>|x - x'| \<le> 1\<close> and \<open>|y - y'| \<le> 1\<close> is set (nonzero) in \<open>msk\<close>, and
  0 otherwise: a square neighbourhood, without wrap-around, applied once.
\<close>

theorem dilate_chebyshev:
  assumes "length msk = width * height" and "x < width" and "y < height"
  shows "dilate msk width height ! (y * width + x) =
      (if \<exists>y'<height. \<exists>x'<width. msk ! (y' * width + x') \<noteq> 0 \<and>
            \<bar>int x - int x'\<bar> \<le> 1 \<and> \<bar>int y - int y'\<bar> \<le> 1 then 1 else 0)"
  using assms by (rule dilate_iff)

theorem dilate_chebyshev_witness:
  "dilate [0, 0, 0, 1, 0, 0] 3 2 ! (0 * 3 + 1) = 1 \<and> dilate [0, 0, 0, 1, 0, 0] 3 2 ! (0 * 3 + 2) = 0"
proof -
  let ?m = "[0, 0, 0, 1, 0, 0] :: u8 list"
  have a: "\<exists>y'<2::nat. \<exists>x'<3::nat. ?m ! (y' * 3 + x') \<noteq> 0 \<and> \<bar>int 1 - int x'\<bar> \<le> 1 \<and> \<bar>int 0 - int y'\<bar> \<le> 1"
  proof -
    have "(1::nat) < 2 \<and> (0::nat) < 3 \<and> ?m ! (1 * 3 + 0) \<noteq> 0 \<and> \<bar>int 1 - int 0\<bar> \<le> 1 \<and> \<bar>int 0 - int 1\<bar> \<le> 1"
      by simp
    then show ?thesis by blast
  qed
  have b: "\<not> (\<exists>y'<2::nat. \<exists>x'<3::nat. ?m ! (y' * 3 + x') \<noteq> 0 \<and> \<bar>int 2 - int x'\<bar> \<le> 1 \<and> \<bar>int 0 - int y'\<bar> \<le> 1)"
    by (auto simp: less_Suc_eq numeral_2_eq_2 numeral_3_eq_3)
  show ?thesis
    using dilate_chebyshev [of ?m 3 2 1 0] dilate_chebyshev [of ?m 3 2 2 0] a b by simp
qed

text \<open>
  Claim C5. For a mask \<open>msk\<close> of \<open>width * height\<close> bytes and every index \<open>i\<close> of it, a
  pixel that is set (nonzero) in \<open>msk\<close> is 1 in \<open>dilate msk\<close>; when the input byte is
  a boolean (0 or 1), this is \<open>msk ! i \<le> dilate msk ! i\<close>.
\<close>

theorem dilate_inflationary:
  assumes len: "length msk = width * height" and i: "i < length msk"
  shows "(msk ! i \<noteq> 0 \<longrightarrow> dilate msk width height ! i = 1) \<and>
         (msk ! i \<le> 1 \<longrightarrow> msk ! i \<le> dilate msk width height ! i)"
proof -
  have w: "0 < width" using len i by (cases width) simp_all
  define x y where "x = i mod width" and "y = i div width"
  have x: "x < width" using w by (simp add: x_def)
  have y: "y < height" using len i w by (simp add: y_def less_mult_imp_div_less mult.commute)
  have idx: "y * width + x = i" by (simp add: x_def y_def)
  have set: "dilate msk width height ! i = 1" if "msk ! i \<noteq> 0"
  proof -
    have "\<exists>y'<height. \<exists>x'<width. msk ! (y' * width + x') \<noteq> 0 \<and>
            \<bar>int x - int x'\<bar> \<le> 1 \<and> \<bar>int y - int y'\<bar> \<le> 1"
      using x y that idx by (metis abs_zero diff_self zero_le_one)
    then show ?thesis using dilate_iff [OF len x y] idx by simp
  qed
  show ?thesis using set by (auto simp: word_le_1_iff)
qed

theorem dilate_inflationary_witness:
  "dilate [0, 1, 0, 0] 2 2 ! 1 = 1 \<and> ([0, 1, 0, 0] :: u8 list) ! 0 \<le> dilate [0, 1, 0, 0] 2 2 ! 0"
  using dilate_inflationary [of "[0, 1, 0, 0]" 2 2 1] dilate_inflationary [of "[0, 1, 0, 0]" 2 2 0]
  by simp

text \<open>
  Claim C10. For masks \<open>M\<close> and \<open>N\<close> of the same length in which every set pixel of
  \<open>M\<close> is set in \<open>N\<close>, every set pixel of \<open>dilate M\<close> is set in \<open>dilate N\<close>. Every
  value of the output is 0 or 1, the output has the length of the input, and the output
  depends only on which input bytes are nonzero.
\<close>

theorem dilate_monotone_boolean:
  assumes "length N = length M" and "\<forall>i<length M. M ! i \<noteq> 0 \<longrightarrow> N ! i \<noteq> 0"
  shows "(\<forall>i<length M. dilate M width height ! i \<noteq> 0 \<longrightarrow> dilate N width height ! i \<noteq> 0) \<and>
         (\<forall>v\<in>set (dilate M width height). v = 0 \<or> v = 1) \<and>
         length (dilate M width height) = length M \<and>
         dilate (map (\<lambda>v. if v = 0 then 0 else 1) M) width height = dilate M width height"
proof -
  have mono: "dilate N width height ! i \<noteq> 0" if "i < length M" "dilate M width height ! i \<noteq> 0" for i
  proof -
    from that have "i \<in> (\<Union>y\<in>{..<height}. \<Union>x\<in>{..<width}. reach M width height y x)"
      by (simp add: dilate_nth split: if_splits)
    then obtain y x where "y < height" "x < width" "i \<in> reach M width height y x"
      by auto
    then have "y < height" "x < width" "i \<in> reach N width height y x"
      using reach_mono [OF assms, of width height y x] by auto
    then have "i \<in> (\<Union>y\<in>{..<height}. \<Union>x\<in>{..<width}. reach N width height y x)"
      by auto
    then show ?thesis using that(1) assms(1) by (simp add: dilate_nth)
  qed
  have nz: "dilate (map (\<lambda>v. if v = 0 then 0 else 1) M) width height = dilate M width height"
    by (rule nth_equalityI) (simp_all add: length_dilate dilate_nth reach_nonzero)
  have vals: "\<forall>v\<in>set (dilate M width height). v = 0 \<or> v = 1"
    using dilate_values by blast
  have len: "length (dilate M width height) = length M"
    by (rule length_dilate)
  from mono have "\<forall>i<length M. dilate M width height ! i \<noteq> 0 \<longrightarrow> dilate N width height ! i \<noteq> 0"
    by blast
  with vals len nz show ?thesis by blast
qed

theorem dilate_monotone_boolean_witness:
  "dilate [0, 1, 0, 7] 4 1 ! 0 \<noteq> 0 \<and> length (dilate [0, 0, 0, 1] 4 1) = 4 \<and>
   dilate [0, 1, 0, 7] 4 1 = [1, 1, 1, 1]"
proof -
  have a: "\<forall>i<length [0, 0, 0, 1 :: u8]. [0, 0, 0, 1 :: u8] ! i \<noteq> 0 \<longrightarrow> [0, 1, 0, 7 :: u8] ! i \<noteq> 0"
    by (simp add: nth_Cons split: nat.split)
  have b: "dilate [0, 1, 0, 7] 4 1 = [1, 1, 1, 1]" by code_simp
  show ?thesis
    using dilate_monotone_boolean [of "[0, 1, 0, 7]" "[0, 0, 0, 1]" 4 1, OF _ a] b by simp
qed

text \<open>
  Claim C7. On the 4 x 4 class-id grid whose centre 2 x 2 block is class 0 and whose
  other cells are class 2, the wall mask has exactly the four centre pixels set, and
  dilating it sets all 16 pixels.
\<close>

theorem scenario_A:
  "wallMask [2, 2, 2, 2,  2, 0, 0, 2,  2, 0, 0, 2,  2, 2, 2, 2]
     = [0, 0, 0, 0,  0, 1, 1, 0,  0, 1, 1, 0,  0, 0, 0, 0] \<and>
   dilate (wallMask [2, 2, 2, 2,  2, 0, 0, 2,  2, 0, 0, 2,  2, 2, 2, 2]) 4 4
     = [1, 1, 1, 1,  1, 1, 1, 1,  1, 1, 1, 1,  1, 1, 1, 1]"
  by code_simp

text \<open>
  Claim C8. Dilation is not idempotent: there is a mask (three pixels in a row, the
  first one set) on which a second application of \<open>dilate\<close> changes the result of the
  first.
\<close>

theorem dilate_not_idempotent:
  "\<exists>msk width height. length msk = width * height \<and>
     dilate (dilate msk width height) width height \<noteq> dilate msk width height"
proof (intro exI)
  show "length [1, 0, 0 :: u8] = 3 * 1 \<and> dilate (dilate [1, 0, 0] 3 1) 3 1 \<noteq> dilate [1, 0, 0] 3 1"
    by code_simp
qed

section \<open>Preprocessing\<close>

lemma planar_fold:
  fixes N n :: nat
  assumes "n \<le> N" and "length r = 3 * N"
  shows "length (fold (\<lambda>i fd. fd[i := a i, i + N := b i, i + 2 * N := c i]) [0..<n] r) = 3 * N \<and>
    (\<forall>i<N.
       fold (\<lambda>i fd. fd[i := a i, i + N := b i, i + 2 * N := c i]) [0..<n] r ! i
         = (if i < n then a i else r ! i) \<and>
       fold (\<lambda>i fd. fd[i := a i, i + N := b i, i + 2 * N := c i]) [0..<n] r ! (N + i)
         = (if i < n then b i else r ! (N + i)) \<and>
       fold (\<lambda>i fd. fd[i := a i, i + N := b i, i + 2 * N := c i]) [0..<n] r ! (2 * N + i)
         = (if i < n then c i else r ! (2 * N + i)))"
  using assms
proof (induction n)
  case 0
  then show ?case by simp
next
  case (Suc n)
  then have IH: "length (fold (\<lambda>i fd. fd[i := a i, i + N := b i, i + 2 * N := c i]) [0..<n] r) = 3 * N"
    "\<And>i. i < N \<Longrightarrow> fold (\<lambda>i fd. fd[i := a i, i + N := b i, i + 2 * N := c i]) [0..<n] r ! i
         = (if i < n then a i else r ! i)"
    "\<And>i. i < N \<Longrightarrow> fold (\<lambda>i fd. fd[i := a i, i + N := b i, i + 2 * N := c i]) [0..<n] r ! (N + i)
         = (if i < n then b i else r ! (N + i))"
    "\<And>i. i < N \<Longrightarrow> fold (\<lambda>i fd. fd[i := a i, i + N := b i, i + 2 * N := c i]) [0..<n] r ! (2 * N + i)
         = (if i < n then c i else r ! (2 * N + i))"
    by simp_all
  from Suc.prems have n: "n < N" by simp
  show ?case
    using n by (auto simp: IH nth_list_update less_Suc_eq)
qed

lemma preprocess_planes:
  assumes "i < width * height"
  shows "preprocess width height rnd data ! i = byte_to_unit rnd (read data (i * 4))"
    and "preprocess width height rnd data ! (width * height + i) = byte_to_unit rnd (read data (i * 4 + 1))"
    and "preprocess width height rnd data ! (2 * (width * height) + i) = byte_to_unit rnd (read data (i * 4 + 2))"
proof -
  define N where "N = width * height"
  have p: "preprocess width height rnd data =
      fold (\<lambda>i fd. fd[i := byte_to_unit rnd (read data (i * 4)),
                      i + N := byte_to_unit rnd (read data (i * 4 + 1)),
                      i + 2 * N := byte_to_unit rnd (read data (i * 4 + 2))])
        [0..<N] (replicate (3 * N) (Finite 0))"
    by (simp add: preprocess_def N_def mult.assoc)
  note f = planar_fold [of N N "replicate (3 * N) (Finite 0)"
      "\<lambda>i. byte_to_unit rnd (read data (i * 4))"
      "\<lambda>i. byte_to_unit rnd (read data (i * 4 + 1))"
      "\<lambda>i. byte_to_unit rnd (read data (i * 4 + 2))", unfolded p [symmetric]]
  from assms have i: "i < N" by (simp add: N_def)
  show "preprocess width height rnd data ! i = byte_to_unit rnd (read data (i * 4))"
    using f i by simp
  show "preprocess width height rnd data ! (width * height + i) = byte_to_unit rnd (read data (i * 4 + 1))"
    using f i by (simp add: N_def)
  show "preprocess width height rnd data ! (2 * (width * height) + i) = byte_to_unit rnd (read data (i * 4 + 2))"
    using f i by (simp add: N_def)
qed

lemma length_preprocess: "length (preprocess width height rnd data) = 3 * (width * height)"
proof -
  have p: "preprocess width height rnd data =
      fold (\<lambda>i fd. fd[i := byte_to_unit rnd (read data (i * 4)),
                      i + width * height := byte_to_unit rnd (read data (i * 4 + 1)),
                      i + 2 * (width * height) := byte_to_unit rnd (read data (i * 4 + 2))])
        [0..<width * height] (replicate (3 * (width * height)) (Finite 0))"
    by (simp add: preprocess_def mult.assoc)
  show ?thesis
    unfolding p
    using planar_fold [of "width * height" "width * height" "replicate (3 * (width * height)) (Finite 0)"]
    by simp
qed

lemma preprocess_nth:
  assumes "i < width * height" and "c < 3"
  shows "preprocess width height rnd data ! (c * (width * height) + i)
     = byte_to_unit rnd (read data (i * 4 + c))"
proof -
  from assms(2) have "c = 0 \<or> c = 1 \<or> c = 2" by auto
  then show ?thesis using preprocess_planes [OF assms(1), of rnd data] by auto
qed

lemma preprocess_alpha:
  assumes len: "length data' = length data"
    and same: "\<forall>j<length data. j mod 4 \<noteq> 3 \<longrightarrow> data' ! j = data ! j"
  shows "preprocess width height rnd data' = preprocess width height rnd data"
proof (cases "width * height = 0")
  case True
  then show ?thesis by (simp add: preprocess_def)
next
  case False
  define N where "N = width * height"
  have N: "0 < N" using False by (simp add: N_def)
  have rd: "read data' (i * 4 + c) = read data (i * 4 + c)" if "c < 3" for i c
  proof -
    have "(i * 4 + c) mod 4 = c" using that by simp
    with that same len show ?thesis by (simp add: read_def)
  qed
  show ?thesis
  proof (rule nth_equalityI)
    show "length (preprocess width height rnd data') = length (preprocess width height rnd data)"
      by (simp add: length_preprocess)
  next
    fix k assume "k < length (preprocess width height rnd data')"
    then have k: "k < 3 * N" by (simp add: length_preprocess N_def)
    define c i where "c = k div N" and "i = k mod N"
    have c: "c < 3" using k N by (simp add: c_def less_mult_imp_div_less mult.commute)
    have i: "i < width * height" using N by (simp add: i_def N_def)
    have e: "k = c * (width * height) + i"
      unfolding c_def i_def N_def by (rule div_mult_mod_eq [symmetric])
    show "preprocess width height rnd data' ! k = preprocess width height rnd data ! k"
      unfolding e preprocess_nth [OF i c] rd [OF c] ..
  qed
qed

lemma unit_interval:
  assumes "mono rnd" and "rnd 0 = 0" and "rnd 1 = 1"
  shows "0 \<le> rnd (real (unat (v::u8)) / 255) \<and> rnd (real (unat v) / 255) \<le> 1"
proof -
  have "unat v < 2 ^ LENGTH(8)" by (rule unsigned_less)
  then have "unat v \<le> 255" by simp
  then have "real (unat v) \<le> real 255" by (simp only: of_nat_le_iff)
  then have le: "real (unat v) \<le> 255" by simp
  have nn: "0 \<le> real (unat v)" by (rule of_nat_0_le_iff)
  have q: "0 \<le> real (unat v) / 255" "real (unat v) / 255 \<le> 1" using nn le by simp_all
  from q(1) assms(1) have "rnd 0 \<le> rnd (real (unat v) / 255)" by (rule monoD [rotated])
  moreover from q(2) assms(1) have "rnd (real (unat v) / 255) \<le> rnd 1" by (rule monoD [rotated])
  ultimately show ?thesis using assms(2,3) by simp
qed

text \<open>
  Claim C9. For the \<open>4 * 512 * 512\<close> RGBA bytes \<open>data\<close> of the 512 x 512 image, every
  pixel \<open>i\<close> and every channel \<open>c\<close> of R, G, B: the output has \<open>3 * 512 * 512\<close>
  values; the value at \<open>c * 512 * 512 + i\<close> is the byte \<open>data ! (4 * i + c)\<close> divided
  by 255, as rounded by \<open>rnd\<close> to the stored float; it lies in \<open>[0, 1]\<close> when the
  rounding is monotone and keeps 0 and 1; and the output does not depend on the alpha
  bytes (the indices \<open>j\<close> with \<open>j mod 4 = 3\<close>).
\<close>

theorem preprocessImage_planar:
  assumes "length data = 4 * 512 * 512" and "i < 512 * 512" and "c < 3"
  shows "length (preprocessImage rnd data) = 3 * 512 * 512 \<and>
         preprocessImage rnd data ! (c * 512 * 512 + i)
           = Finite (rnd (real (unat (data ! (4 * i + c))) / 255)) \<and>
         (mono rnd \<and> rnd 0 = 0 \<and> rnd 1 = 1 \<longrightarrow>
            (\<exists>v. preprocessImage rnd data ! (c * 512 * 512 + i) = Finite v \<and> 0 \<le> v \<and> v \<le> 1)) \<and>
         (\<forall>data'. length data' = length data \<and>
                   (\<forall>j<length data. j mod 4 \<noteq> 3 \<longrightarrow> data' ! j = data ! j) \<longrightarrow>
                   preprocessImage rnd data' = preprocessImage rnd data)"
proof -
  have i: "i < 512 * (512::nat)" using assms(2) by simp
  have len: "length (preprocessImage rnd data) = 3 * 512 * 512"
    by (simp add: preprocessImage_def length_preprocess)
  have "i * 4 + c < length data" using assms by simp
  then have rd: "read data (i * 4 + c) = Some (data ! (4 * i + c))"
    by (simp add: read_def mult.commute)
  have val: "preprocessImage rnd data ! (c * 512 * 512 + i)
           = Finite (rnd (real (unat (data ! (4 * i + c))) / 255))"
    using preprocess_nth [OF i assms(3), of rnd data] rd
    by (simp add: preprocessImage_def byte_to_unit_def mult.assoc)
  have rng: "mono rnd \<and> rnd 0 = 0 \<and> rnd 1 = 1 \<longrightarrow>
            (\<exists>v. preprocessImage rnd data ! (c * 512 * 512 + i) = Finite v \<and> 0 \<le> v \<and> v \<le> 1)"
    unfolding val using unit_interval [of rnd "data ! (4 * i + c)"] by blast
  have alpha: "\<forall>data'. length data' = length data \<and>
                   (\<forall>j<length data. j mod 4 \<noteq> 3 \<longrightarrow> data' ! j = data ! j) \<longrightarrow>
                   preprocessImage rnd data' = preprocessImage rnd data"
    unfolding preprocessImage_def using preprocess_alpha by blast
  from len val rng alpha show ?thesis by blast
qed

theorem preprocessImage_planar_witness:
  "length (preprocessImage (\<lambda>q. q) (replicate (4 * 512 * 512) 255)) = 3 * 512 * 512 \<and>
   preprocessImage (\<lambda>q. q) (replicate (4 * 512 * 512) 255) ! (2 * 512 * 512 + 7) = Finite 1"
proof -
  have a: "length (replicate (4 * 512 * 512) (255::u8)) = 4 * 512 * 512"
    by (rule length_replicate)
  have b: "(7::nat) < 512 * 512" "(2::nat) < 3" by simp_all
  have c: "replicate (4 * 512 * 512) (255::u8) ! (4 * 7 + 2) = 255"
    by (rule nth_replicate) simp
  have d: "real (unat (255::u8)) / 255 = 1" by simp
  show ?thesis
    using preprocessImage_planar [OF a b, of "\<lambda>q. q"] unfolding c d by blast
qed

section \<open>The class decoder\<close>

lemma gt_not_NaN: "gt a b \<Longrightarrow> a \<noteq> NaN \<and> b \<noteq> NaN"
  by (cases a; cases b) simp_all

lemma gt_chain: "gt a m \<Longrightarrow> \<not> gt c m \<Longrightarrow> \<not> gt c a"
  by (cases a; cases m; cases c) simp_all

lemma gt_above: "gt a m \<Longrightarrow> \<not> gt c m \<Longrightarrow> c \<noteq> NaN \<Longrightarrow> gt a c"
  by (cases a; cases m; cases c) simp_all

lemma gt_not_feq: "gt a b \<Longrightarrow> \<not> feq b a"
  by (cases a; cases b) simp_all

lemma gt_irrefl: "\<not> gt a a"
  by (cases a) simp_all

lemma not_gt_NegInf: "\<not> gt a NegInf \<Longrightarrow> a = NaN \<or> a = NegInf"
  by (cases a) simp_all

lemma scanned_step:
  assumes "scanned (score_at d w h i) n st"
  shows "scanned (score_at d w h i) (Suc n) (scan_class d w h i n st)"
proof -
  obtain m k where st: "st = (m, k)" by (cases st)
  let ?s = "score_at d w h i"
  from assms st have inv: "m \<noteq> NaN" "\<forall>c<n. \<not> gt (?s c) m"
    "m = NegInf \<and> k = 0 \<or> k < n \<and> m = ?s k \<and> (\<forall>c<k. ?s c = NaN \<or> gt m (?s c))"
    by (simp_all add: scanned_def)
  show ?thesis
  proof (cases "gt (?s n) m")
    case True
    have "?s n \<noteq> NaN" using True gt_not_NaN by blast
    moreover have "\<not> gt (?s c) (?s n)" if "c < Suc n" for c
    proof (cases "c = n")
      case True
      then show ?thesis by (simp add: gt_irrefl)
    next
      case False
      with that have "\<not> gt (?s c) m" using inv(2) by simp
      with \<open>gt (?s n) m\<close> show ?thesis by (rule gt_chain)
    qed
    moreover have "?s c = NaN \<or> gt (?s n) (?s c)" if "c < n" for c
    proof (cases "?s c = NaN")
      case True
      then show ?thesis by simp
    next
      case False
      from that have "\<not> gt (?s c) m" using inv(2) by simp
      with \<open>gt (?s n) m\<close> have "gt (?s n) (?s c)" using False by (rule gt_above)
      then show ?thesis by simp
    qed
    ultimately show ?thesis using True st by (simp add: scanned_def scan_class_def)
  next
    case False
    have "\<forall>c<Suc n. \<not> gt (?s c) m" using inv(2) False by (simp add: less_Suc_eq)
    moreover have "m = NegInf \<and> k = 0 \<or> k < Suc n \<and> m = ?s k \<and> (\<forall>c<k. ?s c = NaN \<or> gt m (?s c))"
      using inv(3) by auto
    ultimately show ?thesis using False st inv(1) by (simp add: scanned_def scan_class_def)
  qed
qed

lemma scanned_fold:
  "scanned (score_at d w h i) n (fold (scan_class d w h i) [0..<n] (NegInf, 0))"
proof (induction n)
  case 0
  show ?case by (simp add: scanned_def)
next
  case (Suc n)
  then show ?case by (simp add: scanned_step)
qed

lemma maxClass_at_props:
  fixes d w h i n
  defines "s \<equiv> score_at d w h i" and "k \<equiv> maxClass_at d n h w i"
  shows "0 < n \<Longrightarrow> k < n"
    and "c < n \<Longrightarrow> \<not> gt (s c) (s k)"
    and "c < k \<Longrightarrow> \<not> feq (s c) (s k)"
    and "c < k \<Longrightarrow> s c \<noteq> NaN \<Longrightarrow> gt (s k) (s c)"
proof -
  obtain m where fd: "fold (scan_class d w h i) [0..<n] (NegInf, 0) = (m, k)"
    unfolding k_def maxClass_at_def by (cases "fold (scan_class d w h i) [0..<n] (NegInf, 0)") simp
  from scanned_fold [of d w h i n] fd have inv: "m \<noteq> NaN" "\<forall>c<n. \<not> gt (s c) m"
    "m = NegInf \<and> k = 0 \<or> k < n \<and> m = s k \<and> (\<forall>c<k. s c = NaN \<or> gt m (s c))"
    by (simp_all add: scanned_def s_def)
  show "0 < n \<Longrightarrow> k < n" using inv(3) by auto
  show "c < n \<Longrightarrow> \<not> gt (s c) (s k)"
  proof -
    assume c: "c < n"
    from inv(3) show ?thesis
    proof
      assume a: "m = NegInf \<and> k = 0"
      then have "s c = NaN \<or> s c = NegInf" using inv(2) c not_gt_NegInf by blast
      then show ?thesis by auto
    next
      assume "k < n \<and> m = s k \<and> (\<forall>c<k. s c = NaN \<or> gt m (s c))"
      then show ?thesis using inv(2) c by auto
    qed
  qed
  show "c < k \<Longrightarrow> \<not> feq (s c) (s k)"
  proof -
    assume c: "c < k"
    with inv(3) have "s c = NaN \<or> gt (s k) (s c)" by auto
    then show ?thesis
    proof
      assume "s c = NaN"
      then show ?thesis by simp
    next
      assume "gt (s k) (s c)"
      then show ?thesis by (rule gt_not_feq)
    qed
  qed
  show "c < k \<Longrightarrow> s c \<noteq> NaN \<Longrightarrow> gt (s k) (s c)"
  proof -
    assume c: "c < k" "s c \<noteq> NaN"
    with inv(3) have "s c = NaN \<or> gt (s k) (s c)" by auto
    with c(2) show ?thesis by simp
  qed
qed

lemma fold_store:
  "length (fold (\<lambda>i r. r[i := f i]) [0..<n] r) = length r \<and>
   (\<forall>k<length r. fold (\<lambda>i r. r[i := f i]) [0..<n] r ! k = (if k < n then f k else r ! k))"
  by (induction n) (auto simp: nth_list_update less_Suc_eq)

lemma length_decode: "length (decode d n h w) = w * h"
  using fold_store [of "\<lambda>i. (of_nat (maxClass_at d n h w i) :: u8)" "w * h" "replicate (w * h) 0"]
  by (simp add: decode_def)

lemma decode_nth: "i < w * h \<Longrightarrow> decode d n h w ! i = of_nat (maxClass_at d n h w i)"
  using fold_store [of "\<lambda>i. (of_nat (maxClass_at d n h w i) :: u8)" "w * h" "replicate (w * h) 0"]
  by (simp add: decode_def)

lemma unat_class: "k < 256 \<Longrightarrow> unat (of_nat k :: u8) = k"
  by (simp add: unat_of_nat)

text \<open>
  Claim C2. For every score tensor and every position \<open>i\<close> of the grid, with \<open>k\<close> the
  class the scan selects and \<open>s c\<close> the score of class \<open>c\<close> at \<open>i\<close>: the decoder
  stores \<open>k\<close> (as a byte; it reads back as \<open>k\<close> when there are at most 256 classes),
  \<open>k\<close> is a class index, no class has a score greater than \<open>s k\<close>, no class below
  \<open>k\<close> has a score equal to \<open>s k\<close>, and every class below \<open>k\<close> whose score is a
  number has a strictly smaller score: the first class with the maximal score wins.
\<close>

theorem decode_argmax_first:
  assumes "i < outWidth * outHeight"
  shows "(let k = maxClass_at outputData numClasses outHeight outWidth i;
              s = score_at outputData outWidth outHeight i
          in decode outputData numClasses outHeight outWidth ! i = of_nat k \<and>
             (numClasses \<le> 256 \<longrightarrow> unat (decode outputData numClasses outHeight outWidth ! i) = k) \<and>
             (0 < numClasses \<longrightarrow> k < numClasses) \<and>
             (\<forall>c<numClasses. \<not> gt (s c) (s k)) \<and>
             (\<forall>c<k. \<not> feq (s c) (s k)) \<and>
             (\<forall>c<k. s c \<noteq> NaN \<longrightarrow> gt (s k) (s c)))"
proof -
  define k where "k = maxClass_at outputData numClasses outHeight outWidth i"
  define s where "s = score_at outputData outWidth outHeight i"
  have st: "decode outputData numClasses outHeight outWidth ! i = of_nat k"
    using assms by (simp add: decode_nth k_def)
  have lt: "0 < numClasses \<longrightarrow> k < numClasses"
    unfolding k_def by (simp add: maxClass_at_props(1))
  have k256: "numClasses \<le> 256 \<longrightarrow> k < 256"
  proof (cases "numClasses = 0")
    case True
    then show ?thesis by (simp add: k_def maxClass_at_def)
  next
    case False
    with lt show ?thesis by auto
  qed
  have un: "numClasses \<le> 256 \<longrightarrow> unat (decode outputData numClasses outHeight outWidth ! i) = k"
    using k256 st by (simp add: unat_class)
  have a: "\<forall>c<numClasses. \<not> gt (s c) (s k)"
    unfolding k_def s_def by (simp add: maxClass_at_props(2))
  have b: "\<forall>c<k. \<not> feq (s c) (s k)"
    unfolding k_def s_def by (simp add: maxClass_at_props(3))
  have c: "\<forall>c<k. s c \<noteq> NaN \<longrightarrow> gt (s k) (s c)"
    unfolding k_def s_def by (simp add: maxClass_at_props(4))
  from st un lt a b c show ?thesis
    unfolding Let_def k_def s_def by blast
qed

theorem decode_argmax_first_witness:
  "decode [Finite 5, Finite 1, Finite 5, Finite 7, Finite 2, Finite 7] 3 1 2 ! 1 = 1 \<and>
   maxClass_at [Finite 5, Finite 1, Finite 5, Finite 7, Finite 2, Finite 7] 3 1 2 1 = 1 \<and>
   maxClass_at [Finite 5, Finite 1, Finite 5, Finite 7, Finite 2, Finite 7] 3 1 2 0 = 0"
proof -
  let ?d = "[Finite 5, Finite 1, Finite 5, Finite 7, Finite 2, Finite 7]"
  have e: "maxClass_at ?d 3 1 2 1 = 1" "maxClass_at ?d 3 1 2 0 = 0" by code_simp+
  show ?thesis
    using decode_argmax_first [of 1 2 1 ?d 3] e by (simp add: Let_def)
qed

text \<open>
  Claim C6. For a score tensor with at least one and at most 256 classes (so also for at
  most 255), the class-id grid has one cell per position and every cell, read as a
  number, is below \<open>numClasses\<close>.
\<close>

theorem decode_in_range:
  assumes "1 \<le> numClasses" and "numClasses \<le> 256"
  shows "length (decode outputData numClasses outHeight outWidth) = outWidth * outHeight \<and>
         (\<forall>v\<in>set (decode outputData numClasses outHeight outWidth). unat v < numClasses)"
proof -
  have "unat v < numClasses" if "v \<in> set (decode outputData numClasses outHeight outWidth)" for v
  proof -
    from that obtain i where i: "i < outWidth * outHeight"
      and v: "v = decode outputData numClasses outHeight outWidth ! i"
      by (auto simp: in_set_conv_nth length_decode)
    have k: "maxClass_at outputData numClasses outHeight outWidth i < numClasses"
      using assms(1) by (simp add: maxClass_at_props(1))
    with assms(2) have "unat (of_nat (maxClass_at outputData numClasses outHeight outWidth i) :: u8)
        = maxClass_at outputData numClasses outHeight outWidth i"
      by (simp add: unat_class)
    with k v i show ?thesis by (simp add: decode_nth)
  qed
  then show ?thesis by (simp add: length_decode)
qed

theorem decode_in_range_witness:
  "length (decode [Finite 5, Finite 1, Finite 5, Finite 7, Finite 2, Finite 7] 3 1 2) = 2 \<and>
   unat (decode [Finite 5, Finite 1, Finite 5, Finite 7, Finite 2, Finite 7] 3 1 2 ! 0) < 3"
proof -
  let ?d = "[Finite 5, Finite 1, Finite 5, Finite 7, Finite 2, Finite 7]"
  have "decode ?d 3 1 2 ! 0 \<in> set (decode ?d 3 1 2)"
    by (rule nth_mem) (simp add: length_decode)
  then show ?thesis using decode_in_range [of 3 ?d 1 2] by simp
qed

section \<open>Texture failure\<close>

text \<open>
  Claim C4, as stated, fails: with the wall texture present and the floor texture
  failing to load, \<open>run\<close> does not complete and the canvas has no wall overlay.
\<close>

theorem floor_texture_failure_counterexample:
  "fst (run [''/Textures/Floor.webp'' \<mapsto> ()] () [Finite 1] 1 1 1) \<noteq> Inr () \<and>
   snd (run [''/Textures/Floor.webp'' \<mapsto> ()] () [Finite 1] 1 1 1) = [BaseImage ()]"
  by (simp add: run_def drawSegmentationOverlay_def loadTexture_def)

text \<open>
  Claim C4, amended. When the floor texture fails to load while the wall texture loads,
  \<open>drawSegmentationOverlay\<close> rejects with the load error of the floor texture and
  leaves the canvas as it was, and \<open>run\<close> rejects with the same error: the canvas holds
  the input image only, with neither overlay.
\<close>

theorem floor_texture_failure_rejects:
  assumes "assets ''/Textures/Floor.webp'' = Some wallTexture"
    and "assets ''/Textures/Floor1.jpg'' = None"
  shows "drawSegmentationOverlay assets outputClasses maskWidth maskHeight ctx
           = (Inl (TextureLoadError ''/Textures/Floor1.jpg''), ctx) \<and>
         run assets img outputData numClasses outHeight outWidth
           = (Inl (TextureLoadError ''/Textures/Floor1.jpg''), [BaseImage img])"
  using assms by (simp add: run_def drawSegmentationOverlay_def loadTexture_def)

theorem floor_texture_failure_rejects_witness:
  "run [''/Textures/Floor.webp'' \<mapsto> ()] () [Finite 1] 1 1 1
     = (Inl (TextureLoadError ''/Textures/Floor1.jpg''), [BaseImage ()])"
  using floor_texture_failure_rejects [of "[''/Textures/Floor.webp'' \<mapsto> ()]" "()" "[]" 1 1 "[]" "()" "[Finite 1]" 1 1 1]
  by simp

text \<open>When both textures load, the wall layer is drawn first and the floor layer over it.\<close>

lemma both_textures:
  assumes "assets ''/Textures/Floor.webp'' = Some wallTexture"
    and "assets ''/Textures/Floor1.jpg'' = Some floorTexture"
  shows "run assets img outputData numClasses outHeight outWidth
           = (Inr (), [BaseImage img,
                WallOverlay wallTexture (dilate (wallMask (decode outputData numClasses outHeight outWidth)) outWidth outHeight),
                FloorOverlay floorTexture (dilate (floorMask (decode outputData numClasses outHeight outWidth)) outWidth outHeight)])"
  using assms by (simp add: run_def drawSegmentationOverlay_def loadTexture_def Let_def)

end
